theory Spec2Isabelle
  imports Complex_Main "HOL-Library.Word"
begin

unbundle bit_operations_syntax

section \<open>The LandSat notebook: \<open>normalize_data\<close> and \<open>combine_bands\<close>\<close>

text \<open>
  The notebook \<^verbatim>\<open>examples/landsat.ipynb\<close> defines two functions of its own:
  \<^verbatim>\<open>normalize_data\<close> (a numba-compiled double loop applying a logistic curve to every
  cell of a 2-D array) and \<^verbatim>\<open>combine_bands\<close> (alpha mask, three normalisations,
  packing of four byte planes into one \<^verbatim>\<open>uint32\<close> image).  Everything else in the
  notebook is delegated to rasterio, bokeh and datashader.
\<close>

subsection \<open>Floating-point values\<close>

text \<open>
  The band arrays hold floating-point numbers (the notebook stores \<^verbatim>\<open>np.nan\<close> into
  them and tests \<^verbatim>\<open>np.isnan\<close>).  A value is NaN, an infinity, or a finite number.
  Finite arithmetic is carried out on the reals: rounding to the nearest representable
  number, overflow to an infinity, underflow to zero and the sign of zero are not part
  of this model.  NaN and the infinities follow IEEE 754.
\<close>

datatype fval = NaN | NInf | Fin real | PInf

datatype error = ZeroDivisionError | ValueError

definition isnan :: "fval \<Rightarrow> bool" where
  "isnan v = (v = NaN)"

fun fneg :: "fval \<Rightarrow> fval" where
  "fneg NaN = NaN"
| "fneg NInf = PInf"
| "fneg (Fin x) = Fin (- x)"
| "fneg PInf = NInf"

fun fadd :: "fval \<Rightarrow> fval \<Rightarrow> fval" where
  "fadd NaN _ = NaN"
| "fadd _ NaN = NaN"
| "fadd (Fin x) (Fin y) = Fin (x + y)"
| "fadd (Fin x) PInf = PInf"
| "fadd (Fin x) NInf = NInf"
| "fadd PInf NInf = NaN"
| "fadd PInf _ = PInf"
| "fadd NInf PInf = NaN"
| "fadd NInf _ = NInf"

definition fsub :: "fval \<Rightarrow> fval \<Rightarrow> fval" where
  "fsub a b = fadd a (fneg b)"

text \<open>The sign of an infinity, or of a finite number that is not zero.\<close>

fun negative :: "fval \<Rightarrow> bool" where
  "negative NInf = True"
| "negative (Fin x) = (x < 0)"
| "negative _ = False"

definition signed_inf :: "bool \<Rightarrow> fval" where
  "signed_inf neg = (if neg then NInf else PInf)"

fun fmul :: "fval \<Rightarrow> fval \<Rightarrow> fval" where
  "fmul NaN _ = NaN"
| "fmul _ NaN = NaN"
| "fmul (Fin x) (Fin y) = Fin (x * y)"
| "fmul (Fin x) b = (if x = 0 then NaN else signed_inf (negative (Fin x) \<noteq> negative b))"
| "fmul a (Fin y) = (if y = 0 then NaN else signed_inf (negative a \<noteq> negative (Fin y)))"
| "fmul a b = signed_inf (negative a \<noteq> negative b)"

text \<open>
  \<^verbatim>\<open>@ngjit\<close> is \<^verbatim>\<open>numba.jit(nopython=True, nogil=True)\<close>, whose error model is
  Python's: a division whose divisor is zero raises \<^verbatim>\<open>ZeroDivisionError\<close>.
\<close>

fun fdiv :: "fval \<Rightarrow> fval \<Rightarrow> error + fval" where
  "fdiv a (Fin y) =
     (if y = 0 then Inl ZeroDivisionError
      else case a of
        Fin x \<Rightarrow> Inr (Fin (x / y))
      | NaN \<Rightarrow> Inr NaN
      | _ \<Rightarrow> Inr (signed_inf (negative a \<noteq> negative (Fin y))))"
| "fdiv NaN _ = Inr NaN"
| "fdiv _ NaN = Inr NaN"
| "fdiv (Fin x) _ = Inr (Fin 0)"
| "fdiv _ _ = Inr NaN"

fun np_exp :: "fval \<Rightarrow> fval" where
  "np_exp NaN = NaN"
| "np_exp NInf = Fin 0"
| "np_exp (Fin x) = Fin (exp x)"
| "np_exp PInf = PInf"

text \<open>Comparison \<^verbatim>\<open><=\<close>: false as soon as one side is NaN.\<close>

fun fle :: "fval \<Rightarrow> fval \<Rightarrow> bool" where
  "fle NaN _ = False"
| "fle _ NaN = False"
| "fle NInf _ = True"
| "fle _ PInf = True"
| "fle (Fin x) (Fin y) = (x \<le> y)"
| "fle _ _ = False"

text \<open>A Python \<^verbatim>\<open>int\<close> used in float arithmetic is converted to a float first.\<close>

definition of_py_int :: "int \<Rightarrow> fval" where
  "of_py_int n = Fin (of_int n)"

subsection \<open>Arrays and the store\<close>

text \<open>
  A 2-D \<^verbatim>\<open>ndarray\<close> is its shape and its C-contiguous (row-major) buffer: the element
  \<^verbatim>\<open>a[x, y]\<close> of an array of shape \<^verbatim>\<open>(col, rows)\<close> is at offset \<open>x * rows + y\<close>.
  \<^verbatim>\<open>np.dstack\<close> produces a 3-D array, whose shape is a triple.
\<close>

record 'a ndarray =
  shape :: "nat \<times> nat"
  buf :: "'a list"

record 'a ndarray3 =
  shape3 :: "nat \<times> nat \<times> nat"
  buf3 :: "'a list"

definition wf_array :: "'a ndarray \<Rightarrow> bool" where
  "wf_array a = (length (buf a) = fst (shape a) * snd (shape a))"

definition getitem :: "'a ndarray \<Rightarrow> nat \<Rightarrow> nat \<Rightarrow> 'a" where
  "getitem a x y = buf a ! (x * snd (shape a) + y)"

definition setitem :: "'a ndarray \<Rightarrow> nat \<Rightarrow> nat \<Rightarrow> 'a \<Rightarrow> 'a ndarray" where
  "setitem a x y v = a\<lparr>buf := (buf a)[x * snd (shape a) + y := v]\<rparr>"

text \<open>
  \<^verbatim>\<open>normalize_data\<close> allocates its result and fills it in place, reading its argument
  through a reference.  The store is the list of the float arrays allocated so far; a
  reference is an index into it, and an allocation appends.
\<close>

type_synonym addr = nat
type_synonym heap = "fval ndarray list"

definition valid :: "heap \<Rightarrow> addr \<Rightarrow> bool" where
  "valid h p = (p < length h \<and> wf_array (h ! p))"

definition alloc :: "heap \<Rightarrow> fval ndarray \<Rightarrow> addr \<times> heap" where
  "alloc h a = (length h, h @ [a])"

definition zeros_like :: "heap \<Rightarrow> addr \<Rightarrow> addr \<times> heap" where
  "zeros_like h agg =
     alloc h \<lparr>shape = shape (h ! agg),
              buf = replicate (fst (shape (h ! agg)) * snd (shape (h ! agg))) (Fin 0)\<rparr>"

definition store_item :: "heap \<Rightarrow> addr \<Rightarrow> nat \<Rightarrow> nat \<Rightarrow> fval \<Rightarrow> heap" where
  "store_item h out x y v = h[out := setitem (h ! out) x y v]"

subsection \<open>\<open>normalize_data\<close>\<close>

text \<open>
  \<^verbatim>\<open>
  @ngjit
  def normalize_data(agg):
      out = np.zeros_like(agg)
      min_val = 0
      max_val = 2**16 - 1
      range_val = max_val - min_val
      col, rows = agg.shape
      c = 40
      th = .125
      for x in range(col):
          for y in range(rows):
              val = agg[x, y]
              norm = (val - min_val) / range_val
              norm = 1 / (1 + np.exp(c * (th - norm))) # bonus
              out[x, y] = norm * 255.0
      return out
  \<close>
  The body of the inner loop computes the value to store, or raises.
\<close>

definition bind_err :: "error + 'a \<Rightarrow> ('a \<Rightarrow> error + 'b) \<Rightarrow> error + 'b" where
  "bind_err m f = (case m of Inl e \<Rightarrow> Inl e | Inr v \<Rightarrow> f v)"

definition cell_value :: "int \<Rightarrow> int \<Rightarrow> int \<Rightarrow> fval \<Rightarrow> fval \<Rightarrow> error + fval" where
  "cell_value min_val range_val c th val =
     bind_err (fdiv (fsub val (of_py_int min_val)) (of_py_int range_val)) (\<lambda>norm.
     bind_err (fdiv (of_py_int 1)
                 (fadd (of_py_int 1) (np_exp (fmul (of_py_int c) (fsub th norm))))) (\<lambda>norm.
     Inr (fmul norm (Fin 255))))"

fun loop_y :: "int \<Rightarrow> int \<Rightarrow> int \<Rightarrow> fval \<Rightarrow> addr \<Rightarrow> addr \<Rightarrow> nat \<Rightarrow> nat list \<Rightarrow> heap
    \<Rightarrow> error + heap" where
  "loop_y min_val range_val c th agg out x [] h = Inr h"
| "loop_y min_val range_val c th agg out x (y # ys) h =
     bind_err (cell_value min_val range_val c th (getitem (h ! agg) x y)) (\<lambda>v.
     loop_y min_val range_val c th agg out x ys (store_item h out x y v))"

fun loop_x :: "int \<Rightarrow> int \<Rightarrow> int \<Rightarrow> fval \<Rightarrow> addr \<Rightarrow> addr \<Rightarrow> nat \<Rightarrow> nat list \<Rightarrow> heap
    \<Rightarrow> error + heap" where
  "loop_x min_val range_val c th agg out rows [] h = Inr h"
| "loop_x min_val range_val c th agg out rows (x # xs) h =
     bind_err (loop_y min_val range_val c th agg out x [0..<rows] h) (\<lambda>h'.
     loop_x min_val range_val c th agg out rows xs h')"

definition normalize_data :: "heap \<Rightarrow> addr \<Rightarrow> error + (addr \<times> heap)" where
  "normalize_data h agg =
     (let (out, h0) = zeros_like h agg;
          min_val = 0;
          max_val = 2 ^ 16 - 1;
          range_val = max_val - min_val;
          (col, rows) = shape (h0 ! agg);
          c = 40;
          th = Fin (125 / 1000)
      in bind_err (loop_x min_val range_val c th agg out rows [0..<col] h0) (\<lambda>h'.
         Inr (out, h')))"

subsection \<open>\<open>combine_bands\<close>\<close>

text \<open>
  \<^verbatim>\<open>
  def combine_bands(r, g, b):
      a = (np.where(np.logical_or(np.isnan(r),r<=nodata),0,255)).astype(np.uint8)
      r = (normalize_data(r)).astype(np.uint8)
      g = (normalize_data(g)).astype(np.uint8)
      b = (normalize_data(b)).astype(np.uint8)
      col, rows = r.shape
      img = np.dstack([r, g, b, a]).view(np.uint32).reshape(r.shape)
      return tf.Image(data=img)
  \<close>
  \<^verbatim>\<open>nodata\<close> is a global of the notebook, read when the function runs; it is a
  parameter here, and \<open>nodata\<close> below is the value the notebook gives it.

  Two things are left to the machine the notebook runs on: the byte order in which
  \<^verbatim>\<open>view(np.uint32)\<close> reads four consecutive bytes, and the byte that
  \<^verbatim>\<open>astype(np.uint8)\<close> yields for a float with no \<^verbatim>\<open>uint8\<close> value (NaN, an infinity,
  a number outside the range), which C leaves undefined.
\<close>

type_synonym u8 = "8 word"
type_synonym u32 = "32 word"

datatype endian = Little | Big

record host =
  byteorder :: endian
  cast_invalid :: "fval \<Rightarrow> u8"

definition nodata :: int where
  "nodata = 1"

definition np_isnan :: "fval ndarray \<Rightarrow> bool ndarray" where
  "np_isnan a = \<lparr>shape = shape a, buf = map isnan (buf a)\<rparr>"

definition less_equal :: "fval ndarray \<Rightarrow> int \<Rightarrow> bool ndarray" where
  "less_equal a n = \<lparr>shape = shape a, buf = map (\<lambda>v. fle v (of_py_int n)) (buf a)\<rparr>"

definition logical_or :: "bool ndarray \<Rightarrow> bool ndarray \<Rightarrow> bool ndarray" where
  "logical_or a b = \<lparr>shape = shape a, buf = map2 (\<or>) (buf a) (buf b)\<rparr>"

definition np_where :: "bool ndarray \<Rightarrow> int \<Rightarrow> int \<Rightarrow> int ndarray" where
  "np_where cond x y = \<lparr>shape = shape cond, buf = map (\<lambda>c. if c then x else y) (buf cond)\<rparr>"

text \<open>An integer is cast to \<^verbatim>\<open>uint8\<close> modulo 256; a float is truncated towards zero.\<close>

definition astype_uint8_int :: "int ndarray \<Rightarrow> u8 ndarray" where
  "astype_uint8_int a = \<lparr>shape = shape a, buf = map word_of_int (buf a)\<rparr>"

definition trunc :: "real \<Rightarrow> int" where
  "trunc x = (if 0 \<le> x then \<lfloor>x\<rfloor> else \<lceil>x\<rceil>)"

definition float_to_uint8 :: "host \<Rightarrow> fval \<Rightarrow> u8" where
  "float_to_uint8 hst v =
     (case v of
        Fin x \<Rightarrow> if - 1 < x \<and> x < 256 then word_of_int (trunc x) else cast_invalid hst v
      | _ \<Rightarrow> cast_invalid hst v)"

definition astype_uint8 :: "host \<Rightarrow> fval ndarray \<Rightarrow> u8 ndarray" where
  "astype_uint8 hst a = \<lparr>shape = shape a, buf = map (float_to_uint8 hst) (buf a)\<rparr>"

text \<open>
  \<^verbatim>\<open>np.dstack\<close> of 2-D arrays of one shape \<open>(col, rows)\<close> gives the array of shape
  \<open>(col, rows, k)\<close> whose element \<open>[x, y, j]\<close> is element \<open>[x, y]\<close> of the \<open>j\<close>-th
  array; it raises \<^verbatim>\<open>ValueError\<close> on an empty list and when the shapes differ.
\<close>

definition dstack :: "'a ndarray list \<Rightarrow> error + 'a ndarray3" where
  "dstack arrs =
     (case arrs of
        [] \<Rightarrow> Inl ValueError
      | a # _ \<Rightarrow>
          if \<forall>a' \<in> set arrs. shape a' = shape a
          then Inr \<lparr>shape3 = (fst (shape a), snd (shape a), length arrs),
                    buf3 = concat (map (\<lambda>i. map (\<lambda>a'. buf a' ! i) arrs)
                                     [0..<fst (shape a) * snd (shape a)])\<rparr>
          else Inl ValueError)"

definition word_of_bytes :: "endian \<Rightarrow> u8 \<Rightarrow> u8 \<Rightarrow> u8 \<Rightarrow> u8 \<Rightarrow> u32" where
  "word_of_bytes e b0 b1 b2 b3 =
     (case e of
        Little \<Rightarrow> ucast b0 OR push_bit 8 (ucast b1) OR push_bit 16 (ucast b2)
                    OR push_bit 24 (ucast b3)
      | Big \<Rightarrow> ucast b3 OR push_bit 8 (ucast b2) OR push_bit 16 (ucast b1)
                 OR push_bit 24 (ucast b0))"

fun words_of_bytes :: "endian \<Rightarrow> u8 list \<Rightarrow> u32 list" where
  "words_of_bytes e (b0 # b1 # b2 # b3 # bs) = word_of_bytes e b0 b1 b2 b3 # words_of_bytes e bs"
| "words_of_bytes e _ = []"

text \<open>
  \<^verbatim>\<open>view(np.uint32)\<close> of a byte array reads the same buffer four bytes at a time; the
  last axis shrinks by four, and must be a multiple of four.
\<close>

definition view_uint32 :: "endian \<Rightarrow> u8 ndarray3 \<Rightarrow> error + u32 ndarray3" where
  "view_uint32 e a =
     (case shape3 a of (col, rows, k) \<Rightarrow>
        if k mod 4 = 0
        then Inr \<lparr>shape3 = (col, rows, k div 4), buf3 = words_of_bytes e (buf3 a)\<rparr>
        else Inl ValueError)"

definition reshape :: "'a ndarray3 \<Rightarrow> nat \<times> nat \<Rightarrow> error + 'a ndarray" where
  "reshape a sh =
     (case shape3 a of (col, rows, k) \<Rightarrow>
        if col * rows * k = fst sh * snd sh
        then Inr \<lparr>shape = sh, buf = buf3 a\<rparr>
        else Inl ValueError)"

text \<open>
  The expression \<^verbatim>\<open>(normalize_data(r)).astype(np.uint8)\<close>, which \<^verbatim>\<open>combine_bands\<close>
  evaluates once for each band: the normalised channel, eight bits a cell.
\<close>

definition normalize_uint8 :: "host \<Rightarrow> heap \<Rightarrow> addr \<Rightarrow> error + (u8 ndarray \<times> heap)" where
  "normalize_uint8 hst h agg =
     bind_err (normalize_data h agg) (\<lambda>(out, h'). Inr (astype_uint8 hst (h' ! out), h'))"

definition combine_bands ::
    "host \<Rightarrow> int \<Rightarrow> heap \<Rightarrow> addr \<Rightarrow> addr \<Rightarrow> addr \<Rightarrow> error + (u32 ndarray \<times> heap)" where
  "combine_bands hst nd h r g b =
     (let a = astype_uint8_int
                (np_where (logical_or (np_isnan (h ! r)) (less_equal (h ! r) nd)) 0 255)
      in bind_err (normalize_uint8 hst h r) (\<lambda>(r8, h1).
         bind_err (normalize_uint8 hst h1 g) (\<lambda>(g8, h2).
         bind_err (normalize_uint8 hst h2 b) (\<lambda>(b8, h3).
         bind_err (dstack [r8, g8, b8, a]) (\<lambda>d.
         bind_err (view_uint32 (byteorder hst) d) (\<lambda>w.
         bind_err (reshape w (shape r8)) (\<lambda>img.
         Inr (img, h3))))))))"

text \<open>
  The channels of a packed pixel are its four bytes in memory, in the order in which
  \<^verbatim>\<open>np.dstack\<close> laid them down: red, green, blue, alpha.  \<open>byte_of e k px\<close> is the
  \<open>k\<close>-th byte in memory of the word \<open>px\<close> on a host of byte order \<open>e\<close>.
\<close>

definition byte_of :: "endian \<Rightarrow> nat \<Rightarrow> u32 \<Rightarrow> u8" where
  "byte_of e k px =
     (case e of
        Little \<Rightarrow> ucast (drop_bit (8 * k) px)
      | Big \<Rightarrow> ucast (drop_bit (8 * (3 - k)) px))"

definition alpha_of :: "endian \<Rightarrow> u32 \<Rightarrow> u8" where
  "alpha_of e px = byte_of e 3 px"

text \<open>The inputs used as examples below.\<close>

definition x86 :: host where
  "x86 = \<lparr>byteorder = Little, cast_invalid = (\<lambda>_. 0)\<rparr>"


definition bands_1x3 :: heap where
  "bands_1x3 = [\<lparr>shape = (1, 3), buf = [Fin 1, Fin 2, NaN]\<rparr>,
                \<lparr>shape = (1, 3), buf = [Fin 0, Fin 65535, Fin 300]\<rparr>,
                \<lparr>shape = (1, 3), buf = [PInf, NInf, Fin 7]\<rparr>]"

subsection \<open>The value stored in a cell, in closed form\<close>

text \<open>
  \<open>spec_sigmoid\<close> is the curve as the specification writes it,
  \<open>1 / (1 + exp (c * (th - normalized_input)))\<close> with \<open>c = 40\<close>, \<open>th = 0.125\<close> and
  \<open>normalized_input = v / 65535\<close>; \<open>stored\<close> extends it, times 255, to NaN and the
  infinities.  Neither is part of the program: \<open>cell_value_stored\<close> below proves that
  the loop body computes \<open>stored\<close> and never raises.
\<close>

definition spec_sigmoid :: "real \<Rightarrow> real" where
  "spec_sigmoid v = 1 / (1 + exp (40 * (125 / 1000 - v / 65535)))"

fun stored :: "fval \<Rightarrow> fval" where
  "stored NaN = NaN"
| "stored NInf = Fin 0"
| "stored (Fin x) = Fin (spec_sigmoid x * 255)"
| "stored PInf = Fin 255"


section \<open>Properties\<close>

subsection \<open>The loops of \<open>normalize_data\<close>\<close>

lemma one_plus_exp_neq0: "1 + exp (x::real) \<noteq> 0"
  using exp_gt_zero [of x] by linarith

lemma cell_value_stored:
  "cell_value 0 65535 40 (Fin (1 / 8)) v = Inr (stored v)"
  by (cases v)
     (simp_all add: cell_value_def bind_err_def fsub_def of_py_int_def signed_inf_def
        spec_sigmoid_def one_plus_exp_neq0)

lemma fold_update_length:
  "length (fold (\<lambda>y b. b[k + y := g y]) ys b) = length b"
  by (induction ys arbitrary: b) simp_all

lemma fold_update_nth:
  "i < length b \<Longrightarrow> (fold (\<lambda>y b. b[k + y := g y]) [0..<n] b) ! i =
     (if k \<le> i \<and> i < k + n then g (i - k) else b ! i)"
proof (induction n)
  case 0
  show ?case by auto
next
  case (Suc n)
  show ?case
  proof (cases "i = k + n")
    case True
    then show ?thesis using Suc.prems by (simp add: fold_update_length)
  next
    case False
    then show ?thesis using Suc by (auto simp: fold_update_length)
  qed
qed

lemma nested_length:
  "length (fold (\<lambda>x b. fold (\<lambda>y b. b[x * r + y := g x y]) [0..<r] b) xs b) = length b"
  by (induction xs arbitrary: b) (simp_all add: fold_update_length)

lemma nested_nth:
  "i < length b \<Longrightarrow> (fold (\<lambda>x b. fold (\<lambda>y b. b[x * r + y := g x y]) [0..<r] b) [0..<n] b) ! i =
     (if i < n * r then g (i div r) (i mod r) else b ! i)"
proof (induction n)
  case 0
  show ?case by simp
next
  case (Suc n)
  have in_row: "n * r \<le> i \<and> i < n * r + r \<Longrightarrow> i div r = n \<and> i mod r = i - n * r"
  proof -
    assume a: "n * r \<le> i \<and> i < n * r + r"
    then have "0 < r" by (cases r) auto
    from a obtain j where j: "i = n * r + j" "j < r"
      by (metis add_less_cancel_left le_Suc_ex)
    then show ?thesis by simp
  qed
  show ?case
    using Suc in_row by (auto simp: fold_update_nth nested_length)
qed

lemma loop_y_fold:
  assumes "agg \<noteq> out" "out < length h"
  shows "loop_y 0 65535 40 (Fin (1 / 8)) agg out x ys h =
     Inr (h[out := (h ! out)\<lparr>buf :=
        fold (\<lambda>y b. b[x * snd (shape (h ! out)) + y := stored (getitem (h ! agg) x y)])
          ys (buf (h ! out))\<rparr>])"
  using assms
proof (induction ys arbitrary: h)
  case Nil
  then show ?case by simp
next
  case (Cons y ys)
  then show ?case
    by (simp add: cell_value_stored bind_err_def store_item_def setitem_def getitem_def)
qed

lemma loop_x_fold:
  assumes "agg \<noteq> out" "out < length h"
  shows "loop_x 0 65535 40 (Fin (1 / 8)) agg out rows xs h =
     Inr (h[out := (h ! out)\<lparr>buf :=
        fold (\<lambda>x b. fold (\<lambda>y b.
                 b[x * snd (shape (h ! out)) + y := stored (getitem (h ! agg) x y)]) [0..<rows] b)
          xs (buf (h ! out))\<rparr>])"
  using assms
proof (induction xs arbitrary: h)
  case Nil
  then show ?case by simp
next
  case (Cons x xs)
  then show ?case
    by (simp add: loop_y_fold bind_err_def getitem_def)
qed

lemma nested_all:
  assumes "length b = n * r" "length A = n * r"
  shows "fold (\<lambda>x b. fold (\<lambda>y b. b[x * r + y := f (A ! (x * r + y))]) [0..<r] b) [0..<n] b
           = map f A"
proof (rule nth_equalityI)
  show "length (fold (\<lambda>x b. fold (\<lambda>y b. b[x * r + y := f (A ! (x * r + y))]) [0..<r] b)
          [0..<n] b) = length (map f A)"
    using assms by (simp add: nested_length)
next
  fix i
  assume "i < length (fold (\<lambda>x b. fold (\<lambda>y b. b[x * r + y := f (A ! (x * r + y))]) [0..<r] b)
          [0..<n] b)"
  then have i: "i < n * r" using assms by (simp add: nested_length)
  then have "i < length b" using assms by simp
  from nested_nth [OF this, of r "\<lambda>x y. f (A ! (x * r + y))" n] i
  show "fold (\<lambda>x b. fold (\<lambda>y b. b[x * r + y := f (A ! (x * r + y))]) [0..<r] b) [0..<n] b ! i
          = map f A ! i"
    using assms by simp
qed

lemma normalize_data_result:
  assumes "valid h agg"
  shows "normalize_data h agg =
     Inr (length h, h @ [\<lparr>shape = shape (h ! agg), buf = map stored (buf (h ! agg))\<rparr>])"
proof -
  obtain col rows where sh: "shape (h ! agg) = (col, rows)"
    by (cases "shape (h ! agg)")
  from assms have lt: "agg < length h" and len: "length (buf (h ! agg)) = col * rows"
    by (simp_all add: valid_def wf_array_def sh)
  let ?z = "\<lparr>shape = shape (h ! agg), buf = replicate (col * rows) (Fin 0)\<rparr>"
  have ne: "agg \<noteq> length h" using lt by simp
  have "loop_x 0 65535 40 (Fin (1 / 8)) agg (length h) rows [0..<col] (h @ [?z]) =
     Inr (h @ [\<lparr>shape = shape (h ! agg), buf = map stored (buf (h ! agg))\<rparr>])"
    using lt len
    by (simp add: loop_x_fold [OF ne] sh getitem_def nth_append nested_all)
  then show ?thesis
    using lt by (simp add: normalize_data_def zeros_like_def alloc_def sh bind_err_def nth_append)
qed

subsection \<open>Packing four bytes\<close>

lemma byte_of_word_of_bytes:
  "byte_of e 0 (word_of_bytes e b0 b1 b2 b3) = b0"
  "byte_of e 1 (word_of_bytes e b0 b1 b2 b3) = b1"
  "byte_of e 2 (word_of_bytes e b0 b1 b2 b3) = b2"
  "byte_of e 3 (word_of_bytes e b0 b1 b2 b3) = b3"
  unfolding byte_of_def word_of_bytes_def
  by (cases e; rule bit_word_eqI; auto simp add: bit_simps dest: bit_imp_le_length)+

lemma little_sum:
  "word_of_bytes Little r g b a =
     ucast r + (push_bit 8 (ucast g) + (push_bit 16 (ucast b) + push_bit 24 (ucast a)))"
proof -
  have 1: "(push_bit 16 (ucast b) :: u32) + push_bit 24 (ucast a)
     = push_bit 16 (ucast b) OR push_bit 24 (ucast a)"
    by (rule disjunctive_add_eq_or, rule bit_word_eqI)
       (auto simp add: bit_simps dest: bit_imp_le_length)
  have 2: "(push_bit 8 (ucast g) :: u32) + (push_bit 16 (ucast b) OR push_bit 24 (ucast a))
     = push_bit 8 (ucast g) OR push_bit 16 (ucast b) OR push_bit 24 (ucast a)"
    by (rule disjunctive_add_eq_or, rule bit_word_eqI)
       (auto simp add: bit_simps dest: bit_imp_le_length)
  have 3: "(ucast r :: u32) + (push_bit 8 (ucast g) OR push_bit 16 (ucast b) OR push_bit 24 (ucast a))
     = ucast r OR push_bit 8 (ucast g) OR push_bit 16 (ucast b) OR push_bit 24 (ucast a)"
    by (rule disjunctive_add_eq_or, rule bit_word_eqI)
       (auto simp add: bit_simps dest: bit_imp_le_length)
  show ?thesis by (simp add: word_of_bytes_def 1 2 3)
qed

lemma unat_u8_less: "unat (w :: u8) < 256"
proof -
  have "unat w < 2 ^ LENGTH(8)" by (rule unsigned_less)
  then show ?thesis by simp
qed

lemma unat_little:
  "unat (word_of_bytes Little r g b a) = unat r + 256 * unat g + 65536 * unat b + 16777216 * unat a"
proof -
  define N where "N = unat r + 256 * unat g + 65536 * unat b + 16777216 * unat a"
  have "unat r < 256" "unat g < 256" "unat b < 256" "unat a < 256"
    by (rule unat_u8_less)+
  then have small: "N < 2 ^ LENGTH(32)"
    by (simp add: N_def)
  have "word_of_bytes Little r g b a = (word_of_nat N :: u32)"
    by (simp add: little_sum push_bit_eq_mult N_def)
  then have "unat (word_of_bytes Little r g b a) = N mod 2 ^ LENGTH(32)"
    by (simp only: unat_of_nat)
  with small show ?thesis
    by (simp only: mod_less N_def)
qed

subsection \<open>\<open>combine_bands\<close> in closed form\<close>

lemma words_of_bytes_concat:
  "words_of_bytes e (concat (map (\<lambda>i. [f0 i, f1 i, f2 i, f3 i]) xs)) =
     map (\<lambda>i. word_of_bytes e (f0 i) (f1 i) (f2 i) (f3 i)) xs"
  by (induction xs) simp_all

lemma valid_append: "valid h p \<Longrightarrow> valid (h @ hs) p"
  by (simp add: valid_def nth_append)

lemma normalize_uint8_result:
  assumes "valid h agg"
  shows "normalize_uint8 hst h agg =
     Inr (\<lparr>shape = shape (h ! agg), buf = map (\<lambda>v. float_to_uint8 hst (stored v)) (buf (h ! agg))\<rparr>,
          h @ [\<lparr>shape = shape (h ! agg), buf = map stored (buf (h ! agg))\<rparr>])"
  by (simp add: normalize_uint8_def normalize_data_result [OF assms] bind_err_def
      astype_uint8_def)

lemma combine_bands_result:
  assumes "valid h r" "valid h g" "valid h b"
    and "shape (h ! g) = shape (h ! r)" "shape (h ! b) = shape (h ! r)"
  shows "combine_bands hst nd h r g b =
     Inr (\<lparr>shape = shape (h ! r),
           buf = map (\<lambda>i. word_of_bytes (byteorder hst)
                       (float_to_uint8 hst (stored (buf (h ! r) ! i)))
                       (float_to_uint8 hst (stored (buf (h ! g) ! i)))
                       (float_to_uint8 hst (stored (buf (h ! b) ! i)))
                       (word_of_int (if isnan (buf (h ! r) ! i) \<or> fle (buf (h ! r) ! i) (of_py_int nd)
                                     then 0 else 255)))
                   [0..<fst (shape (h ! r)) * snd (shape (h ! r))]\<rparr>,
          h @ [\<lparr>shape = shape (h ! r), buf = map stored (buf (h ! r))\<rparr>,
               \<lparr>shape = shape (h ! g), buf = map stored (buf (h ! g))\<rparr>,
               \<lparr>shape = shape (h ! b), buf = map stored (buf (h ! b))\<rparr>])"
proof -
  let ?R = "\<lparr>shape = shape (h ! r), buf = map stored (buf (h ! r))\<rparr>"
  let ?G = "\<lparr>shape = shape (h ! g), buf = map stored (buf (h ! g))\<rparr>"
  let ?B = "\<lparr>shape = shape (h ! b), buf = map stored (buf (h ! b))\<rparr>"
  let ?u8 = "\<lambda>p. \<lparr>shape = shape (h ! p),
                    buf = map (\<lambda>v. float_to_uint8 hst (stored v)) (buf (h ! p))\<rparr>"
  let ?n = "fst (shape (h ! r)) * snd (shape (h ! r))"
  have lg: "g < length h" and lb: "b < length h"
    using assms by (simp_all add: valid_def)
  have nr: "length (buf (h ! r)) = ?n" and ng: "length (buf (h ! g)) = ?n"
    and nb: "length (buf (h ! b)) = ?n"
    using assms by (simp_all add: valid_def wf_array_def)
  have 1: "normalize_uint8 hst h r = Inr (?u8 r, h @ [?R])"
    using assms(1) by (rule normalize_uint8_result)
  have "valid (h @ [?R]) g" using assms(2) by (rule valid_append)
  then have 2: "normalize_uint8 hst (h @ [?R]) g = Inr (?u8 g, h @ [?R, ?G])"
    using lg by (simp add: normalize_uint8_result nth_append)
  have "valid (h @ [?R, ?G]) b" using assms(3) by (rule valid_append)
  then have 3: "normalize_uint8 hst (h @ [?R, ?G]) b = Inr (?u8 b, h @ [?R, ?G, ?B])"
    using lb by (simp add: normalize_uint8_result nth_append)
  have "combine_bands hst nd h r g b =
     (let a = astype_uint8_int
                (np_where (logical_or (np_isnan (h ! r)) (less_equal (h ! r) nd)) 0 255)
      in bind_err (dstack [?u8 r, ?u8 g, ?u8 b, a]) (\<lambda>d.
         bind_err (view_uint32 (byteorder hst) d) (\<lambda>w.
         bind_err (reshape w (shape (?u8 r))) (\<lambda>img.
         Inr (img, h @ [?R, ?G, ?B])))))"
    by (simp only: combine_bands_def 1 2 3 bind_err_def Let_def sum.case prod.case)
  then show ?thesis
    by (simp add: bind_err_def Let_def assms(4,5) astype_uint8_int_def
        np_where_def logical_or_def np_isnan_def less_equal_def dstack_def view_uint32_def
        reshape_def words_of_bytes_concat nr ng nb)
qed

text \<open>Bands of different shapes: \<^verbatim>\<open>np.dstack\<close> raises.\<close>

lemma combine_bands_mismatch:
  assumes "valid h r" "valid h g" "valid h b"
    and "shape (h ! g) \<noteq> shape (h ! r) \<or> shape (h ! b) \<noteq> shape (h ! r)"
  shows "combine_bands hst nd h r g b = Inl ValueError"
proof -
  let ?R = "\<lparr>shape = shape (h ! r), buf = map stored (buf (h ! r))\<rparr>"
  let ?G = "\<lparr>shape = shape (h ! g), buf = map stored (buf (h ! g))\<rparr>"
  let ?B = "\<lparr>shape = shape (h ! b), buf = map stored (buf (h ! b))\<rparr>"
  let ?u8 = "\<lambda>p. \<lparr>shape = shape (h ! p),
                    buf = map (\<lambda>v. float_to_uint8 hst (stored v)) (buf (h ! p))\<rparr>"
  have lg: "g < length h" and lb: "b < length h"
    using assms by (simp_all add: valid_def)
  have 1: "normalize_uint8 hst h r = Inr (?u8 r, h @ [?R])"
    using assms(1) by (rule normalize_uint8_result)
  have "valid (h @ [?R]) g" using assms(2) by (rule valid_append)
  then have 2: "normalize_uint8 hst (h @ [?R]) g = Inr (?u8 g, h @ [?R, ?G])"
    using lg by (simp add: normalize_uint8_result nth_append)
  have "valid (h @ [?R, ?G]) b" using assms(3) by (rule valid_append)
  then have 3: "normalize_uint8 hst (h @ [?R, ?G]) b = Inr (?u8 b, h @ [?R, ?G, ?B])"
    using lb by (simp add: normalize_uint8_result nth_append)
  have "combine_bands hst nd h r g b =
     (let a = astype_uint8_int
                (np_where (logical_or (np_isnan (h ! r)) (less_equal (h ! r) nd)) 0 255)
      in bind_err (dstack [?u8 r, ?u8 g, ?u8 b, a]) (\<lambda>d.
         bind_err (view_uint32 (byteorder hst) d) (\<lambda>w.
         bind_err (reshape w (shape (?u8 r))) (\<lambda>img.
         Inr (img, h @ [?R, ?G, ?B])))))"
    by (simp only: combine_bands_def 1 2 3 bind_err_def Let_def sum.case prod.case)
  then show ?thesis
    using assms(4)
    by (auto simp add: bind_err_def Let_def dstack_def)
qed

subsection \<open>The curve\<close>

lemma spec_sigmoid_pos: "0 < spec_sigmoid x"
  by (simp add: spec_sigmoid_def add_pos_pos)

lemma spec_sigmoid_less_1: "spec_sigmoid x < 1"
  by (simp add: spec_sigmoid_def add_pos_pos)

lemma spec_sigmoid_mono: "x \<le> y \<Longrightarrow> spec_sigmoid x \<le> spec_sigmoid y"
  unfolding spec_sigmoid_def
  by (intro divide_left_mono) (simp_all add: add_pos_pos divide_right_mono)



lemma exp_35_lower: "(509 :: real) < exp 35"
proof -
  have "1 + 35 + 35\<^sup>2 / 2 \<le> exp (35 :: real)"
    by (rule exp_lower_Taylor_quadratic) simp
  then show ?thesis by simp
qed

section \<open>The claims\<close>

lemma valid_bands_1x3: "valid bands_1x3 0" "valid bands_1x3 1" "valid bands_1x3 2"
  by (simp_all add: valid_def wf_array_def bands_1x3_def)


text \<open>
  C8.  \<open>normalize_data\<close> leaves its input unchanged and has no other effect on the
  store than allocating its result: the result is at a new address, every array that
  existed before the call (the input among them) is what it was, and since the result
  and the input are different arrays of the store, writing a cell of either afterwards
  leaves the other as it is.
\<close>

theorem normalize_data_frame:
  assumes "valid h agg"
  shows "\<exists>out h'. normalize_data h agg = Inr (out, h') \<and> out = length h \<and> out \<noteq> agg
           \<and> take (length h) h' = h \<and> h' ! agg = h ! agg
           \<and> (\<forall>x y v. store_item h' out x y v ! agg = h ! agg)
           \<and> (\<forall>x y v. store_item h' agg x y v ! out = h' ! out)"
proof -
  from assms have "agg < length h" by (simp add: valid_def)
  then show ?thesis
    by (simp add: normalize_data_result [OF assms] store_item_def nth_append)
qed

theorem normalize_data_frame_witness:
  "valid bands_1x3 1 \<and>
   (\<exists>out h'. normalize_data bands_1x3 1 = Inr (out, h') \<and> out = length bands_1x3 \<and> out \<noteq> 1
           \<and> take (length bands_1x3) h' = bands_1x3 \<and> h' ! 1 = bands_1x3 ! 1
           \<and> (\<forall>x y v. store_item h' out x y v ! 1 = bands_1x3 ! 1)
           \<and> (\<forall>x y v. store_item h' 1 x y v ! out = h' ! out))"
  using normalize_data_frame [OF valid_bands_1x3(2)] valid_bands_1x3(2) by simp

lemma nth_heap_append: "valid h p \<Longrightarrow> (h @ hs) ! p = h ! p"
  by (simp add: valid_def nth_append)

text \<open>
  C7.  The Normalizer is deterministic.  Its result is a function of the contents of its
  input array alone: run a second time on the same array, in the store the first run
  left behind, it returns the same 8-bit channel and allocates the same float array; and
  run in any other store \<open>k\<close> on an array of the same contents it returns the same again.
  Nothing else in the store influences the result.
\<close>

theorem normalizer_deterministic:
  assumes "valid h agg" and "valid k agg'" and "k ! agg' = h ! agg"
  shows "\<exists>out8 h1 again8 h2 other8 k1.
           normalize_uint8 hst h agg = Inr (out8, h1)
         \<and> normalize_uint8 hst h1 agg = Inr (again8, h2)
         \<and> again8 = out8 \<and> last h2 = last h1
         \<and> normalize_uint8 hst k agg' = Inr (other8, k1)
         \<and> other8 = out8 \<and> last k1 = last h1"
proof -
  let ?out = "\<lparr>shape = shape (h ! agg), buf = map stored (buf (h ! agg))\<rparr>"
  have "valid (h @ [?out]) agg" using assms(1) by (rule valid_append)
  from normalize_uint8_result [OF this] normalize_uint8_result [OF assms(1)]
    normalize_uint8_result [OF assms(2)]
  show ?thesis
    by (simp add: nth_heap_append [OF assms(1)] assms(3))
qed

theorem normalizer_deterministic_witness:
  "valid bands_1x3 1 \<and> bands_1x3 ! 1 = bands_1x3 ! 1 \<and>
   (\<exists>out8 h1 again8 h2 other8 k1.
           normalize_uint8 x86 bands_1x3 1 = Inr (out8, h1)
         \<and> normalize_uint8 x86 h1 1 = Inr (again8, h2)
         \<and> again8 = out8 \<and> last h2 = last h1
         \<and> normalize_uint8 x86 bands_1x3 1 = Inr (other8, k1)
         \<and> other8 = out8 \<and> last k1 = last h1)"
  using normalizer_deterministic [OF valid_bands_1x3(2) valid_bands_1x3(2) refl, of x86]
    valid_bands_1x3(2)
  by simp

text \<open>
  C6.  A NaN cell is neither caught nor replaced: \<open>normalize_data\<close> returns normally,
  the cell of its result is NaN, and the 8-bit cell after \<^verbatim>\<open>astype(np.uint8)\<close> is whatever
  the host's conversion makes of NaN, a value the program does not determine.
\<close>

theorem nan_propagates:
  assumes "valid h agg" and "i < length (buf (h ! agg))" and "buf (h ! agg) ! i = NaN"
  shows "\<exists>out h1 out8 h2.
           normalize_data h agg = Inr (out, h1) \<and> buf (h1 ! out) ! i = NaN
         \<and> normalize_uint8 hst h agg = Inr (out8, h2) \<and> buf out8 ! i = cast_invalid hst NaN"
  using assms(2,3)
  by (simp add: normalize_data_result [OF assms(1)] normalize_uint8_result [OF assms(1)]
      float_to_uint8_def)

theorem nan_propagates_witness:
  "valid bands_1x3 0 \<and> 2 < length (buf (bands_1x3 ! 0)) \<and> buf (bands_1x3 ! 0) ! 2 = NaN \<and>
   (\<exists>out h1 out8 h2.
           normalize_data bands_1x3 0 = Inr (out, h1) \<and> buf (h1 ! out) ! 2 = NaN
         \<and> normalize_uint8 x86 bands_1x3 0 = Inr (out8, h2) \<and> buf out8 ! 2 = cast_invalid x86 NaN)"
proof -
  have a: "2 < length (buf (bands_1x3 ! 0))" and b: "buf (bands_1x3 ! 0) ! 2 = NaN"
    by (simp_all add: bands_1x3_def)
  from nan_propagates [OF valid_bands_1x3(1) a b, of x86] valid_bands_1x3(1) a b
  show ?thesis by blast
qed

text \<open>
  C5.  For three band arrays of one shape, \<open>combine_bands\<close> returns an image of that
  shape, with one packed pixel for each cell.
\<close>

theorem combine_bands_shape:
  assumes "valid h r" "valid h g" "valid h b"
    and "shape (h ! g) = shape (h ! r)" "shape (h ! b) = shape (h ! r)"
  shows "\<exists>img h'. combine_bands hst nd h r g b = Inr (img, h')
           \<and> shape img = shape (h ! r) \<and> wf_array img"
  by (simp add: combine_bands_result [OF assms] wf_array_def)

lemma shapes_bands_1x3:
  "shape (bands_1x3 ! 1) = shape (bands_1x3 ! 0)" "shape (bands_1x3 ! 2) = shape (bands_1x3 ! 0)"
  by (simp_all add: bands_1x3_def)

theorem combine_bands_shape_witness:
  "valid bands_1x3 0 \<and> valid bands_1x3 1 \<and> valid bands_1x3 2
   \<and> shape (bands_1x3 ! 1) = shape (bands_1x3 ! 0) \<and> shape (bands_1x3 ! 2) = shape (bands_1x3 ! 0)
   \<and> (\<exists>img h'. combine_bands x86 nodata bands_1x3 0 1 2 = Inr (img, h')
           \<and> shape img = (1, 3) \<and> wf_array img)"
proof -
  have "shape (bands_1x3 ! 0) = (1, 3)" by (simp add: bands_1x3_def)
  with combine_bands_shape [OF valid_bands_1x3 shapes_bands_1x3, of x86 nodata]
    valid_bands_1x3 shapes_bands_1x3
  show ?thesis by simp
qed

text \<open>
  C2.  The alpha byte of every pixel of the composite is 0 where the raw red value is NaN
  or at most the no-data sentinel, and 255 everywhere else; so it is always 0 or 255.
  The witness is the notebook's sentinel 1 on a red band holding 1, 2 and NaN: the alpha
  bytes are 0, 255 and 0.
\<close>

theorem alpha_mask:
  assumes "valid h r" "valid h g" "valid h b"
    and "shape (h ! g) = shape (h ! r)" "shape (h ! b) = shape (h ! r)"
  shows "\<exists>img h'. combine_bands hst nd h r g b = Inr (img, h')
           \<and> length (buf img) = length (buf (h ! r))
           \<and> (\<forall>i < length (buf (h ! r)).
                 alpha_of (byteorder hst) (buf img ! i) =
                   (if isnan (buf (h ! r) ! i) \<or> fle (buf (h ! r) ! i) (of_py_int nd)
                    then 0 else 255))"
proof -
  from assms(1) have "length (buf (h ! r)) = fst (shape (h ! r)) * snd (shape (h ! r))"
    by (simp add: valid_def wf_array_def)
  then show ?thesis
    by (simp add: combine_bands_result [OF assms] alpha_of_def byte_of_word_of_bytes)
qed

theorem alpha_mask_witness:
  "valid bands_1x3 0 \<and> valid bands_1x3 1 \<and> valid bands_1x3 2
   \<and> shape (bands_1x3 ! 1) = shape (bands_1x3 ! 0) \<and> shape (bands_1x3 ! 2) = shape (bands_1x3 ! 0)
   \<and> buf (bands_1x3 ! 0) = [Fin 1, Fin 2, NaN]
   \<and> (\<exists>img h'. combine_bands x86 nodata bands_1x3 0 1 2 = Inr (img, h')
           \<and> map (alpha_of (byteorder x86)) (buf img) = [0, 255, 0])"
proof -
  have red: "buf (bands_1x3 ! 0) = [Fin 1, Fin 2, NaN]"
    by (simp add: bands_1x3_def)
  from alpha_mask [OF valid_bands_1x3 shapes_bands_1x3, of x86 nodata]
  obtain img h' where img: "combine_bands x86 nodata bands_1x3 0 1 2 = Inr (img, h')"
    and len: "length (buf img) = 3"
    and a: "\<forall>i < 3. alpha_of (byteorder x86) (buf img ! i) =
                   (if isnan ([Fin 1, Fin 2, NaN] ! i) \<or> fle ([Fin 1, Fin 2, NaN] ! i) (of_py_int nodata)
                    then 0 else 255)"
    unfolding red by auto
  have "map (alpha_of (byteorder x86)) (buf img) = [0, 255, 0]"
  proof (rule nth_equalityI)
    show "length (map (alpha_of (byteorder x86)) (buf img)) = length [0, 255, 0 :: u8]"
      using len by simp
  next
    fix i assume "i < length (map (alpha_of (byteorder x86)) (buf img))"
    then have "i < 3" using len by simp
    then have "i = 0 \<or> i = 1 \<or> i = 2" by auto
    with a len show "map (alpha_of (byteorder x86)) (buf img) ! i = [0, 255, 0] ! i"
      by (auto simp: isnan_def of_py_int_def nodata_def)
  qed
  with img red valid_bands_1x3 shapes_bands_1x3 show ?thesis by simp
qed

text \<open>
  C10.  The alpha channel depends on the red band only: two composites made from the same
  red array and any green and blue arrays have the same alpha bytes, which are a function
  of the raw, not yet normalised, red values.
\<close>

theorem alpha_from_red_only:
  assumes "valid h r" "valid h g1" "valid h b1" "valid h g2" "valid h b2"
    and "shape (h ! g1) = shape (h ! r)" "shape (h ! b1) = shape (h ! r)"
    and "shape (h ! g2) = shape (h ! r)" "shape (h ! b2) = shape (h ! r)"
  shows "\<exists>img1 h1 img2 h2.
           combine_bands hst nd h r g1 b1 = Inr (img1, h1)
         \<and> combine_bands hst nd h r g2 b2 = Inr (img2, h2)
         \<and> map (alpha_of (byteorder hst)) (buf img1) = map (alpha_of (byteorder hst)) (buf img2)
         \<and> map (alpha_of (byteorder hst)) (buf img1) =
             map (\<lambda>v. if isnan v \<or> fle v (of_py_int nd) then 0 else 255) (buf (h ! r))"
proof -
  from assms(1) have n: "length (buf (h ! r)) = fst (shape (h ! r)) * snd (shape (h ! r))"
    by (simp add: valid_def wf_array_def)
  have "map (\<lambda>i. word_of_int (if isnan (buf (h ! r) ! i) \<or> fle (buf (h ! r) ! i) (of_py_int nd)
                 then 0 else 255) :: u8) [0..<length (buf (h ! r))]
      = map (\<lambda>v. if isnan v \<or> fle v (of_py_int nd) then 0 else 255) (buf (h ! r))"
    by (rule nth_equalityI) simp_all
  then show ?thesis
    by (simp add: combine_bands_result [OF assms(1,2,3,6,7)]
        combine_bands_result [OF assms(1,4,5,8,9)] alpha_of_def byte_of_word_of_bytes o_def
        flip: n)
qed

theorem alpha_from_red_only_witness:
  "valid bands_1x3 0 \<and> valid bands_1x3 1 \<and> valid bands_1x3 2
   \<and> shape (bands_1x3 ! 1) = shape (bands_1x3 ! 0) \<and> shape (bands_1x3 ! 2) = shape (bands_1x3 ! 0)
   \<and> (\<exists>img1 h1 img2 h2.
           combine_bands x86 nodata bands_1x3 0 1 2 = Inr (img1, h1)
         \<and> combine_bands x86 nodata bands_1x3 0 2 1 = Inr (img2, h2)
         \<and> map (alpha_of (byteorder x86)) (buf img1) = map (alpha_of (byteorder x86)) (buf img2)
         \<and> map (alpha_of (byteorder x86)) (buf img1) =
             map (\<lambda>v. if isnan v \<or> fle v (of_py_int nodata) then 0 else 255) (buf (bands_1x3 ! 0)))"
  using alpha_from_red_only [OF valid_bands_1x3(1) valid_bands_1x3(2) valid_bands_1x3(3)
      valid_bands_1x3(3) valid_bands_1x3(2) shapes_bands_1x3(1) shapes_bands_1x3(2)
      shapes_bands_1x3(2) shapes_bands_1x3(1), of x86 nodata]
    valid_bands_1x3 shapes_bands_1x3
  by simp

lemma trunc_nonneg: "0 \<le> x \<Longrightarrow> trunc x = \<lfloor>x\<rfloor>"
  by (simp add: trunc_def)

lemma level_bounds: "0 \<le> \<lfloor>spec_sigmoid x * 255\<rfloor> \<and> \<lfloor>spec_sigmoid x * 255\<rfloor> \<le> 254"
proof -
  have "0 < spec_sigmoid x" "spec_sigmoid x < 1"
    by (rule spec_sigmoid_pos, rule spec_sigmoid_less_1)
  then have "0 \<le> spec_sigmoid x * 255" "spec_sigmoid x * 255 < 255"
    by simp_all
  then show ?thesis
    by (simp add: floor_less_iff le_floor_iff)
qed

lemma uint_u8_of_int: "0 \<le> k \<Longrightarrow> k \<le> 255 \<Longrightarrow> uint (word_of_int k :: u8) = k"
  by (simp add: uint_word_of_int)

lemma uint_stored_Fin:
  "uint (float_to_uint8 hst (Fin (spec_sigmoid x * 255))) = \<lfloor>spec_sigmoid x * 255\<rfloor>"
proof -
  have "0 < spec_sigmoid x" "spec_sigmoid x < 1"
    by (rule spec_sigmoid_pos, rule spec_sigmoid_less_1)
  then have r: "0 \<le> spec_sigmoid x * 255" "spec_sigmoid x * 255 < 256"
    by simp_all
  from level_bounds [of x] have "uint (word_of_int \<lfloor>spec_sigmoid x * 255\<rfloor> :: u8)
      = \<lfloor>spec_sigmoid x * 255\<rfloor>"
    by (intro uint_u8_of_int) simp_all
  with r show ?thesis
    by (simp add: float_to_uint8_def trunc_nonneg)
qed

lemma uint_stored_inf:
  "uint (float_to_uint8 hst (Fin 0)) = 0" "uint (float_to_uint8 hst (Fin 255)) = 255"
  by (simp_all add: float_to_uint8_def trunc_def)

text \<open>
  C4.  The Normalizer is monotonically non-decreasing: if the sample of one cell is at most
  the sample of another (neither is NaN, since \<^verbatim>\<open><=\<close> is false on NaN), the 8-bit output
  of the first is at most that of the second, and so is the float that \<open>normalize_data\<close>
  stores.
\<close>

theorem normalizer_monotone:
  assumes "valid h agg" and "i < length (buf (h ! agg))" and "j < length (buf (h ! agg))"
    and "fle (buf (h ! agg) ! i) (buf (h ! agg) ! j)"
  shows "\<exists>out8 h' out h1. normalize_uint8 hst h agg = Inr (out8, h')
           \<and> buf out8 ! i \<le> buf out8 ! j
           \<and> normalize_data h agg = Inr (out, h1)
           \<and> fle (buf (h1 ! out) ! i) (buf (h1 ! out) ! j)"
proof -
  have key: "fle v w \<Longrightarrow> uint (float_to_uint8 hst (stored v)) \<le> uint (float_to_uint8 hst (stored w))
      \<and> fle (stored v) (stored w)" for v w
  proof (cases v; cases w)
    fix x y assume "fle v w" "v = Fin x" "w = Fin y"
    then have "spec_sigmoid x \<le> spec_sigmoid y" by (simp add: spec_sigmoid_mono)
    then have "spec_sigmoid x * 255 \<le> spec_sigmoid y * 255" by simp
    then have "\<lfloor>spec_sigmoid x * 255\<rfloor> \<le> \<lfloor>spec_sigmoid y * 255\<rfloor>" by (rule floor_mono)
    with \<open>v = Fin x\<close> \<open>w = Fin y\<close> \<open>spec_sigmoid x \<le> spec_sigmoid y\<close> show ?thesis
      by (simp add: uint_stored_Fin)
  next
    fix x assume "v = NInf" "w = Fin x"
    then show ?thesis
      using level_bounds [of x] spec_sigmoid_pos [of x]
      by (simp add: uint_stored_Fin uint_stored_inf)
  next
    fix x assume "v = Fin x" "w = PInf"
    then show ?thesis
      using level_bounds [of x] spec_sigmoid_less_1 [of x]
      by (simp add: uint_stored_Fin uint_stored_inf)
  qed (simp_all add: uint_stored_inf)
  from key [OF assms(4)] assms(2,3) show ?thesis
    by (simp add: normalize_uint8_result [OF assms(1)] normalize_data_result [OF assms(1)]
        word_le_def)
qed

theorem normalizer_monotone_witness:
  "valid bands_1x3 2 \<and> 1 < length (buf (bands_1x3 ! 2)) \<and> 2 < length (buf (bands_1x3 ! 2))
   \<and> fle (buf (bands_1x3 ! 2) ! 1) (buf (bands_1x3 ! 2) ! 2)
   \<and> (\<exists>out8 h' out h1. normalize_uint8 x86 bands_1x3 2 = Inr (out8, h')
           \<and> buf out8 ! 1 \<le> buf out8 ! 2
           \<and> normalize_data bands_1x3 2 = Inr (out, h1)
           \<and> fle (buf (h1 ! out) ! 1) (buf (h1 ! out) ! 2))"
proof -
  have a: "1 < length (buf (bands_1x3 ! 2))" and b: "2 < length (buf (bands_1x3 ! 2))"
    and c: "fle (buf (bands_1x3 ! 2) ! 1) (buf (bands_1x3 ! 2) ! 2)"
    by (simp_all add: bands_1x3_def)
  from normalizer_monotone [OF valid_bands_1x3(3) a b c, of x86] valid_bands_1x3(3) a b c
  show ?thesis by (intro conjI)
qed

text \<open>
  C9.  On a little-endian host, every pixel of the composite is
  \<open>r + 256 * g + 256\<^sup>2 * b + 256\<^sup>3 * a\<close>, where \<open>r\<close>, \<open>g\<close> and \<open>b\<close> are the cells of the three
  normalised 8-bit channels and \<open>a\<close> is the alpha value; red is the least significant byte
  and alpha the most significant one.
\<close>

theorem pixel_packing:
  assumes "valid h r" "valid h g" "valid h b"
    and "shape (h ! g) = shape (h ! r)" "shape (h ! b) = shape (h ! r)"
    and "byteorder hst = Little"
  shows "\<exists>img h' r8 hr g8 hg b8 hb.
           combine_bands hst nd h r g b = Inr (img, h')
         \<and> normalize_uint8 hst h r = Inr (r8, hr)
         \<and> normalize_uint8 hst h g = Inr (g8, hg)
         \<and> normalize_uint8 hst h b = Inr (b8, hb)
         \<and> length (buf img) = length (buf (h ! r))
         \<and> (\<forall>i < length (buf img).
               unat (buf img ! i) =
                 unat (buf r8 ! i) + 256 * unat (buf g8 ! i) + 256\<^sup>2 * unat (buf b8 ! i)
                 + 256 ^ 3 * (if isnan (buf (h ! r) ! i) \<or> fle (buf (h ! r) ! i) (of_py_int nd)
                              then 0 else 255)
             \<and> ucast (buf img ! i) = buf r8 ! i
             \<and> ucast (drop_bit 24 (buf img ! i)) =
                 (if isnan (buf (h ! r) ! i) \<or> fle (buf (h ! r) ! i) (of_py_int nd)
                  then 0 else (255 :: u8)))"
proof -
  have n: "length (buf (h ! r)) = fst (shape (h ! r)) * snd (shape (h ! r))"
    and ng: "length (buf (h ! g)) = fst (shape (h ! r)) * snd (shape (h ! r))"
    and nb: "length (buf (h ! b)) = fst (shape (h ! r)) * snd (shape (h ! r))"
    using assms by (simp_all add: valid_def wf_array_def)
  have low: "ucast (word_of_bytes Little b0 b1 b2 b3) = b0" for b0 b1 b2 b3
    using byte_of_word_of_bytes(1) [of Little b0 b1 b2 b3] by (simp add: byte_of_def)
  have high: "ucast (drop_bit 24 (word_of_bytes Little b0 b1 b2 b3)) = b3" for b0 b1 b2 b3
    using byte_of_word_of_bytes(4) [of Little b0 b1 b2 b3] by (simp add: byte_of_def)
  show ?thesis
    by (simp add: combine_bands_result [OF assms(1-5)] normalize_uint8_result [OF assms(1)]
        normalize_uint8_result [OF assms(2)] normalize_uint8_result [OF assms(3)]
        assms(6) n ng nb unat_little low high)
qed

theorem pixel_packing_witness:
  "valid bands_1x3 0 \<and> valid bands_1x3 1 \<and> valid bands_1x3 2
   \<and> shape (bands_1x3 ! 1) = shape (bands_1x3 ! 0) \<and> shape (bands_1x3 ! 2) = shape (bands_1x3 ! 0)
   \<and> byteorder x86 = Little \<and> buf (bands_1x3 ! 0) ! 1 = Fin 2
   \<and> (\<exists>img h' r8 hr g8 hg b8 hb.
           combine_bands x86 nodata bands_1x3 0 1 2 = Inr (img, h')
         \<and> normalize_uint8 x86 bands_1x3 0 = Inr (r8, hr)
         \<and> normalize_uint8 x86 bands_1x3 1 = Inr (g8, hg)
         \<and> normalize_uint8 x86 bands_1x3 2 = Inr (b8, hb)
         \<and> length (buf img) = 3
         \<and> unat (buf img ! 1) =
              unat (buf r8 ! 1) + 256 * unat (buf g8 ! 1) + 256\<^sup>2 * unat (buf b8 ! 1) + 256 ^ 3 * 255
         \<and> ucast (buf img ! 1) = buf r8 ! 1
         \<and> ucast (drop_bit 24 (buf img ! 1)) = (255 :: u8))"
proof -
  have e: "byteorder x86 = Little" by (simp add: x86_def)
  have red: "buf (bands_1x3 ! 0) ! 1 = Fin 2" and len: "length (buf (bands_1x3 ! 0)) = 3"
    by (simp_all add: bands_1x3_def)
  have a: "\<not> (isnan (buf (bands_1x3 ! 0) ! 1) \<or> fle (buf (bands_1x3 ! 0) ! 1) (of_py_int nodata))"
    unfolding red by (simp add: isnan_def of_py_int_def nodata_def)
  from pixel_packing [OF valid_bands_1x3 shapes_bands_1x3 e, of nodata]
  obtain img h' r8 hr g8 hg b8 hb where res:
      "combine_bands x86 nodata bands_1x3 0 1 2 = Inr (img, h')"
      "normalize_uint8 x86 bands_1x3 0 = Inr (r8, hr)"
      "normalize_uint8 x86 bands_1x3 1 = Inr (g8, hg)"
      "normalize_uint8 x86 bands_1x3 2 = Inr (b8, hb)"
      "length (buf img) = length (buf (bands_1x3 ! 0))"
    and every: "\<forall>i < length (buf img).
               unat (buf img ! i) =
                 unat (buf r8 ! i) + 256 * unat (buf g8 ! i) + 256\<^sup>2 * unat (buf b8 ! i)
                 + 256 ^ 3 * (if isnan (buf (bands_1x3 ! 0) ! i)
                                 \<or> fle (buf (bands_1x3 ! 0) ! i) (of_py_int nodata)
                              then 0 else 255)
             \<and> ucast (buf img ! i) = buf r8 ! i
             \<and> ucast (drop_bit 24 (buf img ! i)) =
                 (if isnan (buf (bands_1x3 ! 0) ! i)
                     \<or> fle (buf (bands_1x3 ! 0) ! i) (of_py_int nodata)
                  then 0 else (255 :: u8))"
    by blast
  have "1 < length (buf img)" using res(5) len by simp
  with every a have
    "unat (buf img ! 1) =
       unat (buf r8 ! 1) + 256 * unat (buf g8 ! 1) + 256\<^sup>2 * unat (buf b8 ! 1) + 256 ^ 3 * 255"
    "ucast (buf img ! 1) = buf r8 ! 1" "ucast (drop_bit 24 (buf img ! 1)) = (255 :: u8)"
    by simp_all
  with res len red e valid_bands_1x3 shapes_bands_1x3 show ?thesis by simp
qed


lemma sigmoid_at_max: "spec_sigmoid 65535 * 255 = 255 / (1 + exp (- 35))"
  by (simp add: spec_sigmoid_def)



lemma exp_m35_small: "exp (- 35 :: real) < 1 / 509"
proof -
  have "exp (- 35 :: real) = 1 / exp 35" by (simp add: exp_minus inverse_eq_divide)
  also have "\<dots> < 1 / 509"
    using exp_35_lower by (simp add: field_simps)
  finally show ?thesis .
qed

lemma floor_at_max: "\<lfloor>255 / (1 + exp (- 35) :: real)\<rfloor> = 254"
proof (rule floor_unique)
  have p: "0 < exp (- 35 :: real)" by simp
  then have q: "0 < 1 + exp (- 35 :: real)" by linarith
  show "of_int 254 \<le> 255 / (1 + exp (- 35) :: real)"
    using exp_m35_small q by (simp add: le_divide_eq)
  show "255 / (1 + exp (- 35) :: real) < of_int 254 + 1"
    using p q by (simp add: divide_less_eq)
qed

text \<open>Rounding, which the program does not do, would give 255 for the sample 65535.\<close>

lemma round_at_max: "round (255 / (1 + exp (- 35) :: real)) = 255"
proof (rule round_unique)
  have p: "0 < exp (- 35 :: real)" by simp
  then have q: "0 < 1 + exp (- 35 :: real)" by linarith
  have "255 / (1 + exp (- 35) :: real) < 255"
    using p q by (simp add: divide_less_eq)
  then show "255 / (1 + exp (- 35) :: real) - 1 / 2 < of_int 255"
    by simp
  show "of_int 255 \<le> 255 / (1 + exp (- 35) :: real) + 1 / 2"
    using exp_m35_small q by (simp add: le_divide_eq field_simps)
qed




end
